theory Spec2Isabelle
  imports Main "HOL-Library.Word"
begin

unbundle bit_operations_syntax

section \<open>Data model of package data (data/data.go)\<close>

text \<open>
  \<open>PageNum\<close> is Go's \<open>int64\<close>: a 64-bit word whose arithmetic wraps and whose order is
  the signed one (\<open>\<le>s\<close>, \<open>sint\<close>). The page size \<open>psize\<close> is a Go \<open>int\<close>, 64 bits wide
  on the 64-bit targets modelled here. Lengths of slices are natural numbers; the one
  place where the source narrows a length, \<open>uint32(len(flist.Released))\<close>, is written
  out as a conversion to a 32-bit word.
\<close>

type_synonym byte = "8 word"
type_synonym PageNum = "64 word"

datatype error =
    ErrWrongBytes   \<comment> \<open>the package's \<open>ErrWrongBytes\<close>, possibly wrapped\<close>
  | ErrIO           \<comment> \<open>an error of the underlying file\<close>
  | Panic           \<comment> \<open>a run-time panic (\<open>make\<close> with a length out of range)\<close>

definition DefaultMetaPage :: PageNum where
  "DefaultMetaPage = 0"

definition DefaultFlistPage :: PageNum where
  "DefaultFlistPage = DefaultMetaPage + 1"

definition BeginFreeBlocks :: PageNum where
  "BeginFreeBlocks = DefaultFlistPage + 1"

record Page =
  Num :: PageNum
  Data :: "byte list"

record Metainfo =
  Freelist :: PageNum

text \<open>The field \<open>Max\<close> of the source is \<open>Max_f\<close> here (\<open>Max\<close> is a constant of HOL).\<close>

record Freelist =
  Max_f :: PageNum
  Released :: "PageNum list"

text \<open>
  The Pager owns the open file; \<open>fbytes\<close> (the field \<open>f\<close> of the source) holds the
  contents of that file. The field \<open>path\<close> is only used to open the file.
\<close>

record Pager =
  psize :: "64 word"
  meta :: Metainfo
  flist :: Freelist
  fbytes :: "byte list"

section \<open>Built-ins and library functions the package calls\<close>

text \<open>
  Go's built-in \<open>copy(dst, src)\<close>: overwrites the first \<open>min (len dst) (len src)\<close>
  elements of \<open>dst\<close>, keeps the rest of \<open>dst\<close>, never changes its length.
\<close>

fun copy_go :: "'a list \<Rightarrow> 'a list \<Rightarrow> 'a list" where
  "copy_go [] src = []"
| "copy_go (d # dst) [] = d # dst"
| "copy_go (d # dst) (s # src) = s # copy_go dst src"

text \<open>
  Writing \<open>bs\<close> into the sub-slice \<open>b[lo : lo + len bs]\<close> of a buffer. The source only
  does so with \<open>lo + len bs \<le> len b\<close> (the buffers are sized for it); Go would panic
  on the slice expression otherwise.
\<close>

definition store :: "byte list \<Rightarrow> nat \<Rightarrow> byte list \<Rightarrow> byte list" where
  "store b lo bs = take lo b @ bs @ drop (lo + length bs) b"

text \<open>
  \<open>binary.LittleEndian\<close>: byte \<open>i\<close> holds bits \<open>8 i .. 8 i + 7\<close> of the value. The
  decoders read the first 8 (4) bytes of their argument; Go panics on a shorter one, and
  every call below is made on a slice of exactly that length, under a length check.
\<close>

definition PutUint64 :: "64 word \<Rightarrow> byte list" where
  "PutUint64 v =
     [ucast v, ucast (drop_bit 8 v), ucast (drop_bit 16 v), ucast (drop_bit 24 v),
      ucast (drop_bit 32 v), ucast (drop_bit 40 v), ucast (drop_bit 48 v),
      ucast (drop_bit 56 v)]"

definition Uint64 :: "byte list \<Rightarrow> 64 word" where
  "Uint64 b =
     ucast (b ! 0) OR push_bit 8 (ucast (b ! 1)) OR push_bit 16 (ucast (b ! 2)) OR
     push_bit 24 (ucast (b ! 3)) OR push_bit 32 (ucast (b ! 4)) OR
     push_bit 40 (ucast (b ! 5)) OR push_bit 48 (ucast (b ! 6)) OR
     push_bit 56 (ucast (b ! 7))"

definition PutUint32 :: "32 word \<Rightarrow> byte list" where
  "PutUint32 v =
     [ucast v, ucast (drop_bit 8 v), ucast (drop_bit 16 v), ucast (drop_bit 24 v)]"

definition Uint32 :: "byte list \<Rightarrow> 32 word" where
  "Uint32 b =
     ucast (b ! 0) OR push_bit 8 (ucast (b ! 1)) OR push_bit 16 (ucast (b ! 2)) OR
     push_bit 24 (ucast (b ! 3))"

text \<open>
  \<open>os.File\<close>, as the random-access file the package expects of its host: a positioned
  write at a negative offset is refused, any other one succeeds and extends the file
  with zero bytes up to the offset where needed; a positioned read is refused at a
  negative offset and fails (\<open>io.EOF\<close>) unless the whole buffer can be filled. An empty
  buffer is neither written nor read.
\<close>

definition WriteAt :: "byte list \<Rightarrow> byte list \<Rightarrow> 64 word \<Rightarrow> error + byte list" where
  "WriteAt fl b off =
     (if off <s 0 then Inl ErrIO
      else if b = [] then Inr fl
      else Inr (take (unat off) (fl @ replicate (unat off - length fl) 0) @ b @
                drop (unat off + length b) fl))"

definition ReadAt :: "byte list \<Rightarrow> nat \<Rightarrow> 64 word \<Rightarrow> error + byte list" where
  "ReadAt fl n off =
     (if off <s 0 then Inl ErrIO
      else if n = 0 then Inr []
      else if length fl < unat off + n then Inl ErrIO
      else Inr (take n (drop (unat off) fl)))"

section \<open>Page\<close>

text \<open>
  \<open>make([]byte, size)\<close> panics (\<open>len out of range\<close>) when \<open>size\<close> is negative or larger
  than the run-time's \<open>maxAlloc\<close>, which is \<open>2 ^ 48\<close> bytes on the 64-bit targets modelled
  here; otherwise it gives \<open>size\<close> zero bytes. Running out of the host's memory below
  that limit is not modelled.
\<close>

definition maxAlloc :: int where
  "maxAlloc = 2 ^ 48"

definition NewPage :: "PageNum \<Rightarrow> 64 word \<Rightarrow> error + Page" where
  "NewPage num sz =
     (if sz <s 0 \<or> maxAlloc < sint sz then Inl Panic
      else Inr \<lparr>Num = num, Data = replicate (nat (sint sz)) 0\<rparr>)"

text \<open>
  \<open>WithNum\<close> re-tags the receiver and returns a second page with the same number and
  the same buffer: the pair is (receiver afterwards, page returned).
\<close>

definition WithNum :: "Page \<Rightarrow> PageNum \<Rightarrow> Page \<times> Page" where
  "WithNum pg num = (pg\<lparr>Num := num\<rparr>, \<lparr>Num = num, Data = Data pg\<rparr>)"

definition Page_Write :: "Page \<Rightarrow> byte list \<Rightarrow> Page" where
  "Page_Write pg b = pg\<lparr>Data := copy_go (Data pg) b\<rparr>"

section \<open>Metainfo\<close>

definition NewMetainfo :: Metainfo where
  "NewMetainfo = \<lparr>Freelist = DefaultFlistPage\<rparr>"

definition Metainfo_Serialize :: "Metainfo \<Rightarrow> byte list" where
  "Metainfo_Serialize m = store (replicate 8 0) 0 (PutUint64 (Freelist m))"

text \<open>The methods that mutate their receiver return it together with the error (\<open>None\<close> is \<open>nil\<close>).\<close>

definition Metainfo_Deserialize :: "Metainfo \<Rightarrow> byte list \<Rightarrow> Metainfo \<times> error option" where
  "Metainfo_Deserialize m b =
     (if length b < 8 then (m, Some ErrWrongBytes)
      else (m\<lparr>Freelist := Uint64 (take 8 b)\<rparr>, None))"

definition Metainfo_Equal :: "Metainfo \<Rightarrow> Metainfo \<Rightarrow> bool" where
  "Metainfo_Equal m other = (Freelist m = Freelist other)"

section \<open>Freelist\<close>

definition NewFreelist :: Freelist where
  "NewFreelist = \<lparr>Max_f = BeginFreeBlocks, Released = []\<rparr>"

text \<open>\<open>Next\<close> returns the page number and the receiver afterwards.\<close>

definition Freelist_Next :: "Freelist \<Rightarrow> PageNum \<times> Freelist" where
  "Freelist_Next fl =
     (if length (Released fl) = 0 then (Max_f fl, fl\<lparr>Max_f := Max_f fl + 1\<rparr>)
      else (last (Released fl), fl\<lparr>Released := butlast (Released fl)\<rparr>))"

definition Freelist_Release :: "Freelist \<Rightarrow> PageNum \<Rightarrow> Freelist" where
  "Freelist_Release fl num =
     (if num \<le>s BeginFreeBlocks then fl
      else fl\<lparr>Released := Released fl @ [num]\<rparr>)"

text \<open>
  The buffer of \<open>Serialize\<close> has \<open>12 + 8 len\<close> bytes and the list made by \<open>Deserialize\<close>
  fewer than \<open>2 ^ 32\<close> entries of 8 bytes: both are below \<open>maxAlloc\<close> for every released
  list of up to \<open>2 ^ 45 - 2\<close> entries, so \<open>make\<close> does not panic there.
\<close>

definition Freelist_Serialize :: "Freelist \<Rightarrow> byte list" where
  "Freelist_Serialize fl =
     (let b0 = replicate (8 + 4 + 8 * length (Released fl)) 0;
          b1 = store b0 0 (PutUint64 (Max_f fl));
          b2 = store b1 8 (PutUint32 (word_of_nat (length (Released fl))))
      in fold (\<lambda>(i, num) b. store b (12 + 8 * i) (PutUint64 num))
           (enumerate 0 (Released fl)) b2)"

definition Freelist_Deserialize :: "Freelist \<Rightarrow> byte list \<Rightarrow> Freelist \<times> error option" where
  "Freelist_Deserialize fl b =
     (if length b < 8 + 4 then (fl, Some ErrWrongBytes)
      else
        let fl1 = fl\<lparr>Max_f := Uint64 (take 8 b),
                     Released := replicate (unat (Uint32 (take 4 (drop 8 b)))) 0\<rparr>
        in if length b < (8 + 4) + 8 * length (Released fl1) then (fl1, Some ErrWrongBytes)
           else (fl1\<lparr>Released :=
                        fold (\<lambda>i r. r[i := Uint64 (take 8 (drop (12 + 8 * i) b))])
                          [0..<length (Released fl1)] (Released fl1)\<rparr>,
                 None))"

definition Freelist_Equal :: "Freelist \<Rightarrow> Freelist \<Rightarrow> bool" where
  "Freelist_Equal fl other =
     (if Max_f fl \<noteq> Max_f other \<or> length (Released fl) \<noteq> length (Released other) then False
      else list_all (\<lambda>x. list_ex (\<lambda>y. x = y) (Released other)) (Released fl))"

text \<open>\<open>n\<close> calls of \<open>Next\<close> in a row: the numbers returned, in order, and the final receiver.\<close>

fun Next_times :: "nat \<Rightarrow> Freelist \<Rightarrow> PageNum list \<times> Freelist" where
  "Next_times 0 fl = ([], fl)"
| "Next_times (Suc n) fl =
     (case Freelist_Next fl of (x, fl1) \<Rightarrow>
        (case Next_times n fl1 of (xs, fl2) \<Rightarrow> (x # xs, fl2)))"

text \<open>A caller's sequence of \<open>Next\<close> and \<open>Release\<close> calls on one Freelist.\<close>

datatype call = CallNext | CallRelease PageNum

fun run_calls :: "call list \<Rightarrow> Freelist \<Rightarrow> Freelist" where
  "run_calls [] fl = fl"
| "run_calls (CallNext # cs) fl = run_calls cs (snd (Freelist_Next fl))"
| "run_calls (CallRelease num # cs) fl = run_calls cs (Freelist_Release fl num)"

section \<open>Pager\<close>

definition Alloc :: "Pager \<Rightarrow> error + Page" where
  "Alloc pgr = NewPage 0 (psize pgr)"

definition Pager_Write :: "Pager \<Rightarrow> Page \<Rightarrow> Pager \<times> error option" where
  "Pager_Write pgr pg =
     (let off = Num pg * psize pgr
      in (case WriteAt (fbytes pgr) (Data pg) off of
            Inl e \<Rightarrow> (pgr, Some e)
          | Inr fl \<Rightarrow> (pgr\<lparr>fbytes := fl\<rparr>, None)))"

definition Pager_Read :: "Pager \<Rightarrow> PageNum \<Rightarrow> error + Page" where
  "Pager_Read pgr num =
     (case Alloc pgr of
        Inl e \<Rightarrow> Inl e
      | Inr pg0 \<Rightarrow>
          let pg = snd (WithNum pg0 num);
              off = num * psize pgr
          in (case ReadAt (fbytes pgr) (length (Data pg)) off of
                Inl e \<Rightarrow> Inl e
              | Inr d \<Rightarrow> Inr (pg\<lparr>Data := d\<rparr>)))"

definition Flush :: "Pager \<Rightarrow> Pager \<times> error option" where
  "Flush pgr =
     (case Alloc pgr of
        Inl e \<Rightarrow> (pgr, Some e)
      | Inr pg0 \<Rightarrow>
          let metapg = snd (WithNum pg0 DefaultMetaPage);
              metab = Metainfo_Serialize (meta pgr);
              metapg1 = metapg\<lparr>Data := copy_go (Data metapg) metab\<rparr>
          in (case Pager_Write pgr metapg1 of
                (pgr1, Some e) \<Rightarrow> (pgr1, Some e)
              | (pgr1, None) \<Rightarrow>
                  (case Alloc pgr1 of
                     Inl e \<Rightarrow> (pgr1, Some e)
                   | Inr pg1 \<Rightarrow>
                       (let flistpg = snd (WithNum pg1 (Freelist (meta pgr1)));
                            flistb = Freelist_Serialize (flist pgr1);
                            flistpg1 = flistpg\<lparr>Data := copy_go (Data flistpg) flistb\<rparr>
                        in Pager_Write pgr1 flistpg1))))"

definition Recovery :: "Pager \<Rightarrow> Pager \<times> error option" where
  "Recovery pgr =
     (case Pager_Read pgr DefaultMetaPage of
        Inl e \<Rightarrow> (pgr, Some e)
      | Inr metapg \<Rightarrow>
          (case Metainfo_Deserialize (meta pgr) (Data metapg) of
             (m, Some e) \<Rightarrow> (pgr\<lparr>meta := m\<rparr>, Some e)
           | (m, None) \<Rightarrow>
               (let pgr1 = pgr\<lparr>meta := m\<rparr>
                in (case Pager_Read pgr1 (Freelist (meta pgr1)) of
                      Inl e \<Rightarrow> (pgr1, Some e)
                    | Inr flistpg \<Rightarrow>
                        (case Freelist_Deserialize (flist pgr1) (Data flistpg) of
                           (fl, eo) \<Rightarrow> (pgr1\<lparr>flist := fl\<rparr>, eo))))))"

section \<open>Particular states\<close>

text \<open>A Freelist whose released list has \<open>2 ^ 32\<close> entries, one more than a 32-bit count can hold.\<close>

definition huge_freelist :: Freelist where
  "huge_freelist = \<lparr>Max_f = 0, Released = replicate (2 ^ 32) 3\<rparr>"

text \<open>
  A Pager whose Freelist page offset wraps around: \<open>2 ^ 60 * 16 = 2 ^ 64\<close>, which is 0
  in 64 bits.
\<close>

definition wrapping_pager :: Pager where
  "wrapping_pager =
     \<lparr>psize = 16, meta = \<lparr>Freelist = 2 ^ 60\<rparr>, flist = NewFreelist, fbytes = []\<rparr>"

text \<open>A Pager with two released pages over a short file, and the Pager \<open>NewPager\<close> starts from.\<close>

definition sample_pager :: Pager where
  "sample_pager =
     \<lparr>psize = 32, meta = \<lparr>Freelist = 3\<rparr>, flist = \<lparr>Max_f = 12, Released = [7, 9]\<rparr>,
      fbytes = [1, 2, 3]\<rparr>"

definition fresh_pager :: "64 word \<Rightarrow> byte list \<Rightarrow> Pager" where
  "fresh_pager sz fl = \<lparr>psize = sz, meta = NewMetainfo, flist = NewFreelist, fbytes = fl\<rparr>"

section \<open>The little-endian codec\<close>

lemma Uint32_PutUint32: "Uint32 (PutUint32 v) = v"
proof (rule bit_word_eqI)
  fix n :: nat
  assume n: "n < LENGTH(32)"
  then consider "n < 8" | "8 \<le> n" "n < 16" | "16 \<le> n" "n < 24" | "24 \<le> n" "n < 32"
    by fastforce
  then show "bit (Uint32 (PutUint32 v)) n = bit v n"
    unfolding Uint32_def PutUint32_def
    by cases (auto simp add: bit_simps)
qed

lemma Uint64_PutUint64: "Uint64 (PutUint64 v) = v"
proof (rule bit_word_eqI)
  fix n :: nat
  assume n: "n < LENGTH(64)"
  then consider "n < 8" | "8 \<le> n" "n < 16" | "16 \<le> n" "n < 24" | "24 \<le> n" "n < 32"
    | "32 \<le> n" "n < 40" | "40 \<le> n" "n < 48" | "48 \<le> n" "n < 56" | "56 \<le> n" "n < 64"
    by fastforce
  then show "bit (Uint64 (PutUint64 v)) n = bit v n"
    unfolding Uint64_def PutUint64_def
    by cases (auto simp add: bit_simps)
qed

lemma length_PutUint64 [simp]: "length (PutUint64 v) = 8"
  by (simp add: PutUint64_def)

lemma length_PutUint32 [simp]: "length (PutUint32 v) = 4"
  by (simp add: PutUint32_def)

section \<open>Page\<close>

lemma copy_go_take_drop:
  "copy_go dst src = take (length dst) src @ drop (length src) dst"
  by (induction dst src rule: copy_go.induct) simp_all

lemma length_copy_go [simp]: "length (copy_go dst src) = length dst"
  by (induction dst src rule: copy_go.induct) simp_all

text \<open>
  C8: \<open>Write(b)\<close> on a page whose buffer has length \<open>s\<close> keeps that length, makes the
  first \<open>min (len b) s\<close> bytes of the buffer equal to the same prefix of \<open>b\<close> (whatever
  \<open>b\<close> holds beyond \<open>s\<close> is dropped), and leaves the bytes of the buffer from position
  \<open>min (len b) s\<close> on as they were; the page number is not touched.
\<close>

theorem Page_Write_prefix_and_tail:
  "length (Data (Page_Write pg b)) = length (Data pg) \<and>
   take (min (length b) (length (Data pg))) (Data (Page_Write pg b)) =
     take (min (length b) (length (Data pg))) b \<and>
   drop (min (length b) (length (Data pg))) (Data (Page_Write pg b)) =
     drop (min (length b) (length (Data pg))) (Data pg) \<and>
   Num (Page_Write pg b) = Num pg"
  by (simp add: Page_Write_def copy_go_take_drop min_def)

section \<open>Metainfo\<close>

text \<open>
  C6: deserializing the serialized form of a Metainfo \<open>m\<close>, into any receiver, succeeds
  and leaves the receiver equal to \<open>m\<close>, for every 64-bit page number.
\<close>

theorem Metainfo_roundtrip:
  "Metainfo_Deserialize m0 (Metainfo_Serialize m) = (m, None) \<and>
   Metainfo_Equal m (fst (Metainfo_Deserialize m0 (Metainfo_Serialize m)))"
  by (simp add: Metainfo_Deserialize_def Metainfo_Serialize_def Metainfo_Equal_def store_def
      Uint64_PutUint64)

section \<open>Freelist: allocation\<close>

lemma BeginFreeBlocks_eq: "BeginFreeBlocks = 2"
  by (simp add: BeginFreeBlocks_def DefaultFlistPage_def DefaultMetaPage_def)

lemma not_sle_iff: "(\<not> (a :: 64 word) \<le>s b) = (b <s a)"
  by (auto simp: word_sless_alt word_sle_eq)

lemma Next_grow:
  "Released fl = [] \<Longrightarrow> Freelist_Next fl = (Max_f fl, fl\<lparr>Max_f := Max_f fl + 1\<rparr>)"
  by (simp add: Freelist_Next_def)

lemma Next_times_grow:
  "Released fl = [] \<Longrightarrow>
   Next_times n fl =
     (map (\<lambda>i. Max_f fl + word_of_nat i) [0..<n], fl\<lparr>Max_f := Max_f fl + word_of_nat n\<rparr>)"
proof (induction n arbitrary: fl)
  case 0
  then show ?case by simp
next
  case (Suc n)
  have "Released (fl\<lparr>Max_f := Max_f fl + 1\<rparr>) = []"
    using Suc.prems by simp
  note IH = Suc.IH [OF this]
  have m: "map (\<lambda>i. Max_f fl + word_of_nat i) [0..<Suc n] =
           Max_f fl # map (\<lambda>i. Max_f fl + 1 + word_of_nat i) [0..<n]"
    by (simp add: upt_conv_Cons map_Suc_upt [symmetric] add.assoc del: upt_Suc)
  show ?case
    unfolding m using Suc.prems by (simp add: Next_grow IH add.assoc del: upt_Suc)
qed

lemma sint_boundary_plus:
  assumes "i < 2 ^ 63 - 2"
  shows "sint ((2 :: 64 word) + word_of_nat i) = 2 + int i"
proof -
  have "(2 :: 64 word) + word_of_nat i = word_of_int (2 + int i)"
    by simp
  moreover have "2 + int i < 2 ^ 63"
    using assms by simp
  ultimately show ?thesis
    by (simp only: sint_sbintrunc') (simp add: signed_take_bit_int_eq_self)
qed

text \<open>
  C2, as the code has it: a growth call (nothing released) returns the current \<open>max\<close>
  and only then increments it. So on a fresh Freelist \<open>n\<close> calls of \<open>Next\<close> in a row
  return \<open>boundary, boundary + 1, \<dots>, boundary + n - 1\<close> (in wrapping 64-bit arithmetic)
  and leave \<open>max = boundary + n\<close>; as long as \<open>n \<le> 2 ^ 63 - 2\<close> nothing wraps and these
  are the consecutive integers \<open>2, 3, \<dots>, n + 1\<close>.
\<close>

theorem Next_grows_from_boundary:
  "(Released fl = [] \<longrightarrow> Freelist_Next fl = (Max_f fl, fl\<lparr>Max_f := Max_f fl + 1\<rparr>)) \<and>
   Next_times n NewFreelist =
     (map (\<lambda>i. BeginFreeBlocks + word_of_nat i) [0..<n],
      \<lparr>Max_f = BeginFreeBlocks + word_of_nat n, Released = []\<rparr>) \<and>
   (n \<le> 2 ^ 63 - 2 \<longrightarrow>
      map sint (fst (Next_times n NewFreelist)) = map (\<lambda>i. 2 + int i) [0..<n])"
proof (intro conjI impI)
  show "Freelist_Next fl = (Max_f fl, fl\<lparr>Max_f := Max_f fl + 1\<rparr>)" if "Released fl = []"
    using that by (rule Next_grow)
  have fresh: "Released NewFreelist = []"
    by (simp add: NewFreelist_def)
  show run: "Next_times n NewFreelist =
     (map (\<lambda>i. BeginFreeBlocks + word_of_nat i) [0..<n],
      \<lparr>Max_f = BeginFreeBlocks + word_of_nat n, Released = []\<rparr>)"
    using Next_times_grow [OF fresh, of n] by (simp add: NewFreelist_def)
  show "map sint (fst (Next_times n NewFreelist)) = map (\<lambda>i. 2 + int i) [0..<n]"
    if "n \<le> 2 ^ 63 - 2"
    using that by (simp add: run BeginFreeBlocks_eq sint_boundary_plus)
qed

theorem Next_grows_from_boundary_witness:
  "Released NewFreelist = [] \<and>
   Freelist_Next NewFreelist = (2, \<lparr>Max_f = 3, Released = []\<rparr>) \<and>
   Next_times 3 NewFreelist = ([2, 3, 4], \<lparr>Max_f = 5, Released = []\<rparr>) \<and>
   (3 :: nat) \<le> 2 ^ 63 - 2 \<and>
   map sint (fst (Next_times 3 NewFreelist)) = [2, 3, 4]"
  using Next_grows_from_boundary [of NewFreelist 3]
  by (simp add: NewFreelist_def BeginFreeBlocks_eq upt_rec)

text \<open>C2 as stated fails: the first \<open>Next\<close> on a fresh Freelist returns the boundary itself.\<close>

theorem Next_first_counterexample:
  "fst (Freelist_Next NewFreelist) = BeginFreeBlocks \<and>
   fst (Freelist_Next NewFreelist) \<noteq> BeginFreeBlocks + 1 \<and>
   fst (Freelist_Next NewFreelist) \<noteq> Max_f (snd (Freelist_Next NewFreelist))"
  by (simp add: Freelist_Next_def NewFreelist_def BeginFreeBlocks_eq)

text \<open>
  C3, for page numbers above the reserved boundary: on a fresh Freelist, \<open>Release(a)\<close>,
  \<open>Release(b)\<close> and then two calls of \<open>Next\<close> return \<open>b\<close> and then \<open>a\<close>, and the Freelist
  is fresh again.
\<close>

theorem Release_Next_LIFO:
  assumes "BeginFreeBlocks <s a" and "BeginFreeBlocks <s b"
  shows "Next_times 2 (Freelist_Release (Freelist_Release NewFreelist a) b) =
         ([b, a], NewFreelist)"
proof -
  have a: "\<not> a \<le>s BeginFreeBlocks" and b: "\<not> b \<le>s BeginFreeBlocks"
    using assms by (simp_all add: not_sle_iff)
  show ?thesis
    by (simp add: numeral_2_eq_2 Freelist_Release_def Freelist_Next_def NewFreelist_def a b)
qed

theorem Release_Next_LIFO_witness:
  "BeginFreeBlocks <s 7 \<and> BeginFreeBlocks <s 9 \<and>
   Next_times 2 (Freelist_Release (Freelist_Release NewFreelist 7) 9) = ([9, 7], NewFreelist)"
proof -
  have a: "BeginFreeBlocks <s 7" and b: "BeginFreeBlocks <s 9"
    by (simp_all add: BeginFreeBlocks_eq word_sless_alt)
  show ?thesis
    using a b Release_Next_LIFO [OF a b] by simp
qed

text \<open>
  C3 as stated fails for a page number at or below the boundary: \<open>Release(1)\<close> is
  dropped, so after \<open>Release(1)\<close>, \<open>Release(5)\<close> the two calls return 5 and then 2.
\<close>

theorem Release_Next_LIFO_counterexample:
  "Next_times 2 (Freelist_Release (Freelist_Release NewFreelist 1) 5) =
     ([5, 2], \<lparr>Max_f = 3, Released = []\<rparr>) \<and>
   fst (Next_times 2 (Freelist_Release (Freelist_Release NewFreelist 1) 5)) \<noteq> [5, 1]"
  by (simp add: numeral_2_eq_2 Freelist_Release_def Freelist_Next_def NewFreelist_def
      BeginFreeBlocks_eq word_sle_eq)

text \<open>
  C4: \<open>Release(n)\<close> with \<open>n\<close> at or below the reserved boundary returns with the whole
  Freelist (\<open>max\<close> and the released list) unchanged, so the next \<open>Next\<close> returns what it
  would have returned without the call.
\<close>

theorem Release_reserved_noop:
  assumes "num \<le>s BeginFreeBlocks"
  shows "Freelist_Release fl num = fl \<and>
         Freelist_Next (Freelist_Release fl num) = Freelist_Next fl"
  using assms by (simp add: Freelist_Release_def)

theorem Release_reserved_noop_witness:
  "(2 :: 64 word) \<le>s BeginFreeBlocks \<and>
   Freelist_Release \<lparr>Max_f = 7, Released = [5]\<rparr> 2 = \<lparr>Max_f = 7, Released = [5]\<rparr> \<and>
   Freelist_Next (Freelist_Release \<lparr>Max_f = 7, Released = [5]\<rparr> 2) =
     (5, \<lparr>Max_f = 7, Released = []\<rparr>)"
proof -
  have h: "(2 :: 64 word) \<le>s BeginFreeBlocks"
    by (simp add: BeginFreeBlocks_eq word_sle_eq)
  show ?thesis
    using h Release_reserved_noop [OF h, of "\<lparr>Max_f = 7, Released = [5]\<rparr>"]
    by (simp add: Freelist_Next_def)
qed

lemma above_boundary_Next:
  "\<forall>x\<in>set (Released fl). BeginFreeBlocks <s x \<Longrightarrow>
   \<forall>x\<in>set (Released (snd (Freelist_Next fl))). BeginFreeBlocks <s x"
  by (auto simp: Freelist_Next_def dest: in_set_butlastD)

lemma above_boundary_Release:
  assumes "\<forall>x\<in>set (Released fl). BeginFreeBlocks <s x"
  shows "\<forall>x\<in>set (Released (Freelist_Release fl num)). BeginFreeBlocks <s x"
proof (cases "num \<le>s BeginFreeBlocks")
  case True
  then show ?thesis using assms by (simp add: Freelist_Release_def)
next
  case False
  then have "BeginFreeBlocks <s num" by (simp only: not_sle_iff)
  then show ?thesis using assms False by (simp add: Freelist_Release_def)
qed

lemma above_boundary_run_calls:
  "\<forall>x\<in>set (Released fl). BeginFreeBlocks <s x \<Longrightarrow>
   \<forall>x\<in>set (Released (run_calls cs fl)). BeginFreeBlocks <s x"
proof (induction cs fl rule: run_calls.induct)
  case (1 fl)
  then show ?case by simp
next
  case (2 cs fl)
  have "\<forall>x\<in>set (Released (run_calls cs (snd (Freelist_Next fl)))). BeginFreeBlocks <s x"
    by (rule "2.IH") (rule above_boundary_Next [OF "2.prems"])
  then show ?case by simp
next
  case (3 num cs fl)
  have "\<forall>x\<in>set (Released (run_calls cs (Freelist_Release fl num))). BeginFreeBlocks <s x"
    by (rule "3.IH") (rule above_boundary_Release [OF "3.prems"])
  then show ?case by simp
qed

text \<open>
  C10: whatever sequence of \<open>Next\<close> and \<open>Release\<close> calls is run on a Freelist made by
  \<open>NewFreelist\<close>, the page number \<open>BeginFreeBlocks\<close> is not in the released list
  afterwards; and \<open>BeginFreeBlocks\<close> is the number the first \<open>Next\<close> on a fresh Freelist
  returns.
\<close>

theorem boundary_never_released:
  "BeginFreeBlocks \<notin> set (Released (run_calls cs NewFreelist)) \<and>
   fst (Freelist_Next NewFreelist) = BeginFreeBlocks"
proof -
  have "\<forall>x\<in>set (Released (run_calls cs NewFreelist)). BeginFreeBlocks <s x"
    by (rule above_boundary_run_calls) (simp add: NewFreelist_def)
  then have "BeginFreeBlocks \<notin> set (Released (run_calls cs NewFreelist))"
    by (auto simp: word_sless_alt)
  moreover have "fst (Freelist_Next NewFreelist) = BeginFreeBlocks"
    by (simp add: Freelist_Next_def NewFreelist_def)
  ultimately show ?thesis ..
qed

section \<open>Freelist: serialization\<close>

lemma store_at_end:
  "length pre = lo \<Longrightarrow> length bs \<le> length post \<Longrightarrow>
   store (pre @ post) lo bs = pre @ bs @ drop (length bs) post"
  by (simp add: store_def)

lemma serialize_loop:
  "length pre = 12 + 8 * k \<Longrightarrow>
   fold (\<lambda>(i, num) b. store b (12 + 8 * i) (PutUint64 num)) (enumerate k xs)
     (pre @ replicate (8 * length xs) 0) = pre @ concat (map PutUint64 xs)"
proof (induction xs arbitrary: k pre)
  case Nil
  then show ?case by simp
next
  case (Cons x xs)
  have step: "store (pre @ replicate (8 + 8 * length xs) 0) (12 + 8 * k) (PutUint64 x) =
              pre @ PutUint64 x @ replicate (8 * length xs) 0"
    using Cons.prems by (simp add: store_at_end)
  have len: "length (pre @ PutUint64 x) = 12 + 8 * Suc k"
    using Cons.prems by simp
  show ?case
    using Cons.IH [OF len] by (simp add: step)
qed

lemma Freelist_Serialize_eq:
  "Freelist_Serialize fl =
     PutUint64 (Max_f fl) @ PutUint32 (word_of_nat (length (Released fl))) @
     concat (map PutUint64 (Released fl))"
proof -
  let ?n = "length (Released fl)"
  have b1: "store (replicate (8 + 4 + 8 * ?n) 0) 0 (PutUint64 (Max_f fl)) =
            PutUint64 (Max_f fl) @ replicate (4 + 8 * ?n) 0"
    by (simp add: store_def)
  have b2: "store (PutUint64 (Max_f fl) @ replicate (4 + 8 * ?n) 0) 8 (PutUint32 (word_of_nat ?n)) =
            (PutUint64 (Max_f fl) @ PutUint32 (word_of_nat ?n)) @ replicate (8 * ?n) 0"
    by (simp add: store_def)
  have len: "length (PutUint64 (Max_f fl) @ PutUint32 (word_of_nat ?n)) = 12 + 8 * 0"
    by simp
  show ?thesis
    unfolding Freelist_Serialize_def Let_def b1 b2
    using serialize_loop [OF len, of "Released fl"] by simp
qed

lemma length_concat_PutUint64 [simp]: "length (concat (map PutUint64 xs)) = 8 * length xs"
  by (induction xs) simp_all

lemma length_Freelist_Serialize: "length (Freelist_Serialize fl) = 12 + 8 * length (Released fl)"
  by (simp add: Freelist_Serialize_eq)

lemma deserialize_loop:
  "k \<le> length r \<Longrightarrow> fold (\<lambda>i r. r[i := g i]) [0..<k] r = map g [0..<k] @ drop k r"
proof (induction k)
  case 0
  then show ?case by simp
next
  case (Suc k)
  then have k: "k < length r" by simp
  have "fold (\<lambda>i r. r[i := g i]) [0..<Suc k] r = (map g [0..<k] @ drop k r)[k := g k]"
    using Suc by simp
  also have "\<dots> = map g [0..<k] @ (drop k r)[0 := g k]"
    by (simp add: list_update_append)
  also have "drop k r = r ! k # drop (Suc k) r"
    using k by (simp add: Cons_nth_drop_Suc)
  finally show ?case by simp
qed

lemma Freelist_Deserialize_eq:
  "Freelist_Deserialize fl b =
     (if length b < 12 then (fl, Some ErrWrongBytes)
      else if length b < 12 + 8 * unat (Uint32 (take 4 (drop 8 b)))
      then (fl\<lparr>Max_f := Uint64 (take 8 b),
               Released := replicate (unat (Uint32 (take 4 (drop 8 b)))) 0\<rparr>, Some ErrWrongBytes)
      else (fl\<lparr>Max_f := Uint64 (take 8 b),
               Released := map (\<lambda>i. Uint64 (take 8 (drop (12 + 8 * i) b)))
                             [0..<unat (Uint32 (take 4 (drop 8 b)))]\<rparr>, None))"
  by (simp add: Freelist_Deserialize_def Let_def deserialize_loop)

lemma drop_concat_PutUint64:
  "drop (8 * i) (concat (map PutUint64 xs)) = concat (map PutUint64 (drop i xs))"
proof (induction xs arbitrary: i)
  case Nil
  then show ?case by simp
next
  case (Cons x xs)
  then show ?case by (cases i) simp_all
qed

lemma entry_of_serialized:
  assumes "i < length xs"
  shows "Uint64 (take 8 (drop (12 + 8 * i)
           (PutUint64 m @ PutUint32 c @ concat (map PutUint64 xs) @ pad))) = xs ! i"
proof -
  have "drop i xs = xs ! i # drop (Suc i) xs"
    using assms by (simp add: Cons_nth_drop_Suc)
  then have "drop (8 * i) (concat (map PutUint64 xs)) =
             PutUint64 (xs ! i) @ concat (map PutUint64 (drop (Suc i) xs))"
    by (simp add: drop_concat_PutUint64)
  moreover have "drop (12 + 8 * i) (PutUint64 m @ PutUint32 c @ concat (map PutUint64 xs) @ pad) =
                 drop (8 * i) (concat (map PutUint64 xs)) @ pad"
    using assms by simp
  ultimately show ?thesis
    by (simp add: Uint64_PutUint64)
qed

lemma Freelist_roundtrip_padded:
  assumes "length (Released f) < 2 ^ 32"
  shows "Freelist_Deserialize g (Freelist_Serialize f @ pad) = (f, None)"
proof -
  let ?n = "length (Released f)"
  define b where "b = Freelist_Serialize f @ pad"
  have len: "length b = 12 + 8 * ?n + length pad"
    by (simp add: b_def length_Freelist_Serialize)
  have cnt: "unat (Uint32 (take 4 (drop 8 b))) = ?n"
    using assms by (simp add: b_def Freelist_Serialize_eq Uint32_PutUint32 unat_of_nat)
  have mx: "Uint64 (take 8 b) = Max_f f"
    by (simp add: b_def Freelist_Serialize_eq Uint64_PutUint64)
  have ent: "Uint64 (take 8 (drop (12 + 8 * i) b)) = Released f ! i" if "i < ?n" for i
    using that by (simp only: b_def Freelist_Serialize_eq append_assoc entry_of_serialized)
  have "map (\<lambda>i. Uint64 (take 8 (drop (12 + 8 * i) b))) [0..<?n] =
        map ((!) (Released f)) [0..<?n]"
  proof (rule map_cong [OF refl])
    fix i
    assume "i \<in> set [0..<?n]"
    then have "i < ?n" by simp
    then show "Uint64 (take 8 (drop (12 + 8 * i) b)) = Released f ! i"
      by (rule ent)
  qed
  then have "map (\<lambda>i. Uint64 (take 8 (drop (12 + 8 * i) b))) [0..<?n] = Released f"
    by (simp only: map_nth)
  then have "Freelist_Deserialize g b = (f, None)"
    by (simp add: Freelist_Deserialize_eq cnt mx len)
  then show ?thesis
    by (simp only: b_def)
qed

lemma huge_freelist_roundtrip: "Freelist_Deserialize g (Freelist_Serialize huge_freelist) = (\<lparr>Max_f = 0, Released = []\<rparr>, None)"
proof -
  define b where "b = Freelist_Serialize huge_freelist"
  have w0: "(word_of_nat (2 ^ 32) :: 32 word) = 0"
    by simp
  have len: "12 \<le> length b"
    by (simp add: b_def length_Freelist_Serialize)
  have cnt: "unat (Uint32 (take 4 (drop 8 b))) = 0"
    by (simp add: b_def Freelist_Serialize_eq Uint32_PutUint32 huge_freelist_def w0)
  have mx: "Uint64 (take 8 b) = 0"
    by (simp add: b_def Freelist_Serialize_eq Uint64_PutUint64 huge_freelist_def)
  have "Freelist_Deserialize g b = (\<lparr>Max_f = 0, Released = []\<rparr>, None)"
    using len by (simp add: Freelist_Deserialize_eq cnt mx)
  then show ?thesis
    by (simp only: b_def)
qed

text \<open>
  C5, for a released list whose length fits the 4-byte count of the format (fewer than
  \<open>2 ^ 32\<close> entries): deserializing the serialized form of a Freelist \<open>f\<close>, into any
  receiver, succeeds and leaves the receiver equal to \<open>f\<close>: the same \<open>max\<close>, the same
  released list and so the same set of released page numbers.
\<close>

theorem Freelist_roundtrip:
  assumes "length (Released f) < 2 ^ 32"
  shows "Freelist_Deserialize g (Freelist_Serialize f) = (f, None) \<and>
         snd (Freelist_Deserialize g (Freelist_Serialize f)) = None \<and>
         Max_f (fst (Freelist_Deserialize g (Freelist_Serialize f))) = Max_f f \<and>
         set (Released (fst (Freelist_Deserialize g (Freelist_Serialize f)))) = set (Released f) \<and>
         Freelist_Equal f (fst (Freelist_Deserialize g (Freelist_Serialize f)))"
  using Freelist_roundtrip_padded [OF assms, of g "[]"]
  by (simp add: Freelist_Equal_def list_all_iff list_ex_iff)

theorem Freelist_roundtrip_witness:
  "length (Released \<lparr>Max_f = 12, Released = [7, 9]\<rparr>) < 2 ^ 32 \<and>
   Freelist_Deserialize NewFreelist (Freelist_Serialize \<lparr>Max_f = 12, Released = [7, 9]\<rparr>) =
     (\<lparr>Max_f = 12, Released = [7, 9]\<rparr>, None)"
proof -
  have h: "length (Released \<lparr>Max_f = 12, Released = [7, 9]\<rparr>) < 2 ^ 32"
    by simp
  show ?thesis
    using h Freelist_roundtrip [OF h, of NewFreelist] by simp
qed

text \<open>
  C5 as stated fails for a released list of \<open>2 ^ 32\<close> entries: the count is written as
  \<open>uint32(len)\<close>, which is 0, so deserializing succeeds with an empty released list.
\<close>

theorem Freelist_roundtrip_counterexample:
  "snd (Freelist_Deserialize NewFreelist (Freelist_Serialize huge_freelist)) = None \<and>
   set (Released (fst (Freelist_Deserialize NewFreelist (Freelist_Serialize huge_freelist)))) \<noteq>
     set (Released huge_freelist)"
  by (simp add: huge_freelist_roundtrip) (simp add: huge_freelist_def)

text \<open>
  C7: \<open>Deserialize(b)\<close> returns the wrong-byte-count error exactly when \<open>b\<close> has fewer
  than 12 bytes or fewer than \<open>12 + 8 c\<close> bytes, \<open>c\<close> being the count in bytes 8..12;
  otherwise it returns no error, with \<open>max\<close> read from the first 8 bytes and the released
  list read, position by position, from the \<open>c\<close> entries of 8 bytes that follow.
\<close>

theorem Freelist_Deserialize_cases:
  "(snd (Freelist_Deserialize fl b) = Some ErrWrongBytes \<longleftrightarrow>
      length b < 12 \<or> length b < 12 + 8 * unat (Uint32 (take 4 (drop 8 b)))) \<and>
   (\<not> (length b < 12 \<or> length b < 12 + 8 * unat (Uint32 (take 4 (drop 8 b)))) \<longrightarrow>
      Freelist_Deserialize fl b =
        (fl\<lparr>Max_f := Uint64 (take 8 b),
            Released := map (\<lambda>i. Uint64 (take 8 (drop (12 + 8 * i) b)))
                          [0..<unat (Uint32 (take 4 (drop 8 b)))]\<rparr>, None))"
  by (simp add: Freelist_Deserialize_eq)

theorem Freelist_Deserialize_cases_witness:
  "\<not> (length [5, 0, 0, 0, 0, 0, 0, 0, 2, 0, 0, 0, 7, 0, 0, 0, 0, 0, 0, 0, 9, 0, 0, 0, 0, 0, 0, 0, 1 :: byte] < 12 \<or>
      length [5, 0, 0, 0, 0, 0, 0, 0, 2, 0, 0, 0, 7, 0, 0, 0, 0, 0, 0, 0, 9, 0, 0, 0, 0, 0, 0, 0, 1 :: byte]
        < 12 + 8 * unat (Uint32 (take 4 (drop 8
            [5, 0, 0, 0, 0, 0, 0, 0, 2, 0, 0, 0, 7, 0, 0, 0, 0, 0, 0, 0, 9, 0, 0, 0, 0, 0, 0, 0, 1 :: byte])))) \<and>
   Freelist_Deserialize NewFreelist
     [5, 0, 0, 0, 0, 0, 0, 0, 2, 0, 0, 0, 7, 0, 0, 0, 0, 0, 0, 0, 9, 0, 0, 0, 0, 0, 0, 0, 1] =
     (\<lparr>Max_f = 5, Released = [7, 9]\<rparr>, None)"
  using Freelist_Deserialize_cases [of NewFreelist
      "[5, 0, 0, 0, 0, 0, 0, 0, 2, 0, 0, 0, 7, 0, 0, 0, 0, 0, 0, 0, 9, 0, 0, 0, 0, 0, 0, 0, 1]"]
  by (simp add: Uint32_def Uint64_def NewFreelist_def upt_rec)

text \<open>
  C9: when \<open>b\<close> has its 12 header bytes but fewer than \<open>12 + 8 c\<close> bytes for the declared
  count \<open>c\<close>, \<open>Deserialize(b)\<close> returns the wrong-byte-count error with the receiver already
  changed: \<open>max\<close> is the value of the first 8 bytes and the released list is \<open>c\<close> zeros.
  There is such an input on which the receiver afterwards differs from the receiver
  before.
\<close>

theorem Freelist_Deserialize_not_atomic:
  "(12 \<le> length b \<and> length b < 12 + 8 * unat (Uint32 (take 4 (drop 8 b))) \<longrightarrow>
      Freelist_Deserialize fl b =
        (fl\<lparr>Max_f := Uint64 (take 8 b),
            Released := replicate (unat (Uint32 (take 4 (drop 8 b)))) 0\<rparr>,
         Some ErrWrongBytes)) \<and>
   (\<exists>fl' b'. 12 \<le> length b' \<and> length b' < 12 + 8 * unat (Uint32 (take 4 (drop 8 b'))) \<and>
      snd (Freelist_Deserialize fl' b') = Some ErrWrongBytes \<and>
      fst (Freelist_Deserialize fl' b') \<noteq> fl')"
proof
  show "12 \<le> length b \<and> length b < 12 + 8 * unat (Uint32 (take 4 (drop 8 b))) \<longrightarrow>
      Freelist_Deserialize fl b =
        (fl\<lparr>Max_f := Uint64 (take 8 b),
            Released := replicate (unat (Uint32 (take 4 (drop 8 b)))) 0\<rparr>,
         Some ErrWrongBytes)"
    by (simp add: Freelist_Deserialize_eq)
  let ?b = "[9, 0, 0, 0, 0, 0, 0, 0, 1, 0, 0, 0] :: byte list"
  have c: "unat (Uint32 (take 4 (drop 8 ?b))) = 1"
    by (simp add: Uint32_def)
  have "12 \<le> length ?b \<and> length ?b < 12 + 8 * unat (Uint32 (take 4 (drop 8 ?b))) \<and>
      snd (Freelist_Deserialize NewFreelist ?b) = Some ErrWrongBytes \<and>
      fst (Freelist_Deserialize NewFreelist ?b) \<noteq> NewFreelist"
    unfolding c by (simp add: Freelist_Deserialize_eq Uint32_def NewFreelist_def)
  then show "\<exists>fl' b'. 12 \<le> length b' \<and> length b' < 12 + 8 * unat (Uint32 (take 4 (drop 8 b'))) \<and>
      snd (Freelist_Deserialize fl' b') = Some ErrWrongBytes \<and>
      fst (Freelist_Deserialize fl' b') \<noteq> fl'"
    by blast
qed

theorem Freelist_Deserialize_not_atomic_witness:
  "12 \<le> length [9, 0, 0, 0, 0, 0, 0, 0, 1, 0, 0, 0 :: byte] \<and>
   length [9, 0, 0, 0, 0, 0, 0, 0, 1, 0, 0, 0 :: byte]
     < 12 + 8 * unat (Uint32 (take 4 (drop 8 [9, 0, 0, 0, 0, 0, 0, 0, 1, 0, 0, 0 :: byte]))) \<and>
   Freelist_Deserialize NewFreelist [9, 0, 0, 0, 0, 0, 0, 0, 1, 0, 0, 0] =
     (\<lparr>Max_f = 9, Released = [0]\<rparr>, Some ErrWrongBytes) \<and>
   fst (Freelist_Deserialize NewFreelist [9, 0, 0, 0, 0, 0, 0, 0, 1, 0, 0, 0]) \<noteq> NewFreelist"
  using Freelist_Deserialize_not_atomic [of "[9, 0, 0, 0, 0, 0, 0, 0, 1, 0, 0, 0]" NewFreelist]
  by (simp add: Uint32_def Uint64_def NewFreelist_def)

section \<open>Pager: flush and recovery\<close>

lemma uint_of_nonneg:
  fixes x :: "64 word"
  assumes "0 \<le> sint x"
  shows "uint x = sint x"
proof -
  have "sint x < 2 ^ 63"
    using sint_lt [of x] by simp
  then have lt: "sint x < 2 ^ 64"
    by simp
  have "uint x = take_bit 64 (sint x)"
    by (simp add: uint_sint)
  also have "\<dots> = sint x"
    using assms lt by (rule take_bit_int_eq_self)
  finally show ?thesis .
qed

lemma unat_of_nonneg:
  fixes x :: "64 word"
  assumes "0 \<le> sint x"
  shows "unat x = nat (sint x)"
  using uint_of_nonneg [OF assms] by (simp add: unat_eq_nat_uint)

lemma sint_mult_no_wrap:
  fixes a b :: "64 word"
  assumes "0 \<le> sint a" and "0 \<le> sint b" and "sint a * sint b < 2 ^ 63"
  shows "sint (a * b) = sint a * sint b"
proof -
  have "0 \<le> sint a * sint b"
    using assms(1,2) by (rule mult_nonneg_nonneg)
  then have "- (2 ^ 63) \<le> sint a * sint b"
    by simp
  then have "signed_take_bit 63 (sint a * sint b) = sint a * sint b"
    using assms(3) by (rule signed_take_bit_int_eq_self)
  then show ?thesis
    by (simp add: sint_word_mult)
qed

lemma unat_mult_no_wrap:
  fixes a b :: "64 word"
  assumes "0 \<le> sint a" and "0 \<le> sint b" and "sint a * sint b < 2 ^ 63"
  shows "unat (a * b) = unat a * unat b" and "\<not> a * b <s 0"
proof -
  have s: "sint (a * b) = sint a * sint b"
    using assms by (rule sint_mult_no_wrap)
  then have nn: "0 \<le> sint (a * b)"
    using assms(1,2) by simp
  then show "\<not> a * b <s 0"
    by (simp add: word_sless_alt)
  show "unat (a * b) = unat a * unat b"
    by (simp only: unat_of_nonneg [OF nn] unat_of_nonneg [OF assms(1)]
        unat_of_nonneg [OF assms(2)] s nat_mult_distrib [OF assms(1)])
qed

lemma written_same:
  "take (length b) (drop off (take off (fl @ replicate (off - length fl) z) @ b @ rest)) = b"
proof -
  have "length (take off (fl @ replicate (off - length fl) z)) = off"
    by simp
  then have "drop off (take off (fl @ replicate (off - length fl) z) @ b @ rest) = b @ rest"
    by (metis append_eq_conv_conj)
  then show ?thesis
    by simp
qed

lemma written_before:
  assumes "off' + n \<le> off" and "off' + n \<le> length fl"
  shows "take n (drop off' (take off (fl @ replicate (off - length fl) z) @ rest)) =
         take n (drop off' fl)"
proof -
  define P where "P = take off (fl @ replicate (off - length fl) z)"
  have lenP: "length P = off"
    by (simp add: P_def)
  have "take n (drop off' (P @ rest)) = take n (drop off' P)"
    using assms(1) lenP by simp
  also have "\<dots> = take n (drop off' (fl @ replicate (off - length fl) z))"
    using assms(1) by (simp add: P_def drop_take)
  also have "\<dots> = take n (drop off' fl)"
    using assms(2) by simp
  finally show ?thesis
    by (simp only: P_def)
qed

lemma written_length:
  "off + length b \<le>
   length (take off (fl @ replicate (off - length fl) z) @ b @ drop (off + length b) fl)"
  by simp

lemma Alloc_ok:
  assumes "0 \<le> sint (psize pgr)" and "sint (psize pgr) \<le> maxAlloc"
  shows "Alloc pgr = Inr \<lparr>Num = 0, Data = replicate (unat (psize pgr)) 0\<rparr>"
  using assms by (simp add: Alloc_def NewPage_def word_sless_alt unat_of_nonneg)

lemma ReadAt_ok:
  assumes "\<not> off <s 0" and "0 < n" and "unat off + n \<le> length fl"
  shows "ReadAt fl n off = Inr (take n (drop (unat off) fl))"
  using assms by (simp add: ReadAt_def)

lemma WriteAt_ok:
  assumes "\<not> off <s 0" and "b \<noteq> []"
  shows "WriteAt fl b off =
         Inr (take (unat off) (fl @ replicate (unat off - length fl) 0) @ b @
              drop (unat off + length b) fl)"
  using assms by (simp add: WriteAt_def)

lemma Flush_then_Recovery:
  fixes pgr pgr' :: Pager
  assumes A2: "int (12 + 8 * length (Released (flist pgr))) \<le> sint (psize pgr)"
    and A3: "length (Released (flist pgr)) < 2 ^ 32"
    and A4: "0 <s Freelist (meta pgr)"
    and A5: "sint (Freelist (meta pgr)) * sint (psize pgr) < 2 ^ 63"
    and A6: "sint (psize pgr) \<le> maxAlloc"
  shows "\<exists>fl. Flush pgr = (pgr\<lparr>fbytes := fl\<rparr>, None) \<and>
           Recovery (pgr'\<lparr>psize := psize pgr, fbytes := fl\<rparr>) =
             (pgr'\<lparr>psize := psize pgr, fbytes := fl, meta := meta pgr, flist := flist pgr\<rparr>, None)"
proof -
  define p where "p = psize pgr"
  define ps where "ps = unat p"
  define F where "F = Freelist (meta pgr)"
  define n where "n = length (Released (flist pgr))"
  define MP where "MP = copy_go (replicate ps 0) (Metainfo_Serialize (meta pgr))"
  define FP where "FP = copy_go (replicate ps 0) (Freelist_Serialize (flist pgr))"
  define f1 where "f1 = MP @ drop ps (fbytes pgr)"
  define off where "off = unat F * ps"
  define f2 where "f2 = take off (f1 @ replicate (off - length f1) 0) @ FP @ drop (off + ps) f1"
  have p_nn: "0 \<le> sint p"
    using A2 by (simp add: p_def)
  have p_le: "sint p \<le> maxAlloc"
    using A6 by (simp add: p_def)
  have F_pos: "0 < sint F"
    using A4 by (simp add: F_def word_sless_alt)
  then have F_nn: "0 \<le> sint F"
    by simp
  have ups: "ps = nat (sint (psize pgr))"
    using unat_of_nonneg [OF p_nn] by (simp add: ps_def p_def)
  have ps_ge: "12 + 8 * n \<le> ps"
    using A2 unfolding ups n_def by linarith
  have ps_pos: "0 < ps"
    using ps_ge by simp
  have uF: "1 \<le> unat F"
    using F_pos by (simp add: unat_of_nonneg [OF F_nn])
  have prod: "sint F * sint p < 2 ^ 63"
    using A5 by (simp add: F_def p_def)
  have uoff: "unat (F * p) = off" and off_nn: "\<not> F * p <s 0"
    using unat_mult_no_wrap [OF F_nn p_nn prod] by (simp_all add: off_def ps_def)
  have off_ge: "ps \<le> off"
    using uF by (simp add: off_def)
  have lenMP: "length MP = ps" and lenFP: "length FP = ps"
    by (simp_all add: MP_def FP_def)
  have MP_ne: "MP \<noteq> []" and FP_ne: "FP \<noteq> []"
    using lenMP lenFP ps_pos by auto
  have MP_eq: "MP = Metainfo_Serialize (meta pgr) @ replicate (ps - 8) 0"
    using ps_ge by (simp add: MP_def copy_go_take_drop Metainfo_Serialize_def store_def)
  have FP_eq: "FP = Freelist_Serialize (flist pgr) @ replicate (ps - (12 + 8 * n)) 0"
    using ps_ge by (simp add: FP_def copy_go_take_drop length_Freelist_Serialize n_def)
  have alloc: "Alloc q = Inr \<lparr>Num = 0, Data = replicate ps 0\<rparr>" if "psize q = p" for q
    using Alloc_ok [of q] p_nn p_le that by (simp add: ps_def)
  have zero_nn: "\<not> (0 :: 64 word) <s 0"
    by simp
  have w1: "WriteAt (fbytes pgr) MP 0 = Inr f1"
    using WriteAt_ok [OF zero_nn MP_ne, of "fbytes pgr"] by (simp add: f1_def lenMP)
  have w2: "WriteAt f1 FP (F * p) = Inr f2"
    using WriteAt_ok [OF off_nn FP_ne, of f1] by (simp add: f2_def uoff lenFP)
  have flush: "Flush pgr = (pgr\<lparr>fbytes := f2\<rparr>, None)"
    using alloc [of pgr] alloc [of "pgr\<lparr>fbytes := f1\<rparr>"] w1 w2
    by (simp add: Flush_def Pager_Write_def WithNum_def DefaultMetaPage_def Let_def
        MP_def [symmetric] FP_def [symmetric] p_def [symmetric] F_def [symmetric])
  have lenf1: "ps \<le> length f1"
    by (simp add: f1_def lenMP)
  have lenf2: "off + ps \<le> length f2"
    unfolding f2_def lenFP [symmetric] by (rule written_length)
  have rd1: "take ps (drop 0 f2) = MP"
  proof -
    have "take ps (drop 0 f2) = take ps (drop 0 f1)"
      unfolding f2_def by (rule written_before) (simp_all add: off_ge lenf1)
    then show ?thesis
      by (simp add: f1_def lenMP)
  qed
  have rd2: "take ps (drop off f2) = FP"
    unfolding f2_def using written_same [of FP off f1 0 "drop (off + ps) f1"]
    by (simp only: lenFP)
  define R where "R = pgr'\<lparr>psize := p, fbytes := f2\<rparr>"
  have r1: "Pager_Read R DefaultMetaPage = Inr \<lparr>Num = 0, Data = MP\<rparr>"
  proof -
    have "unat (0 :: 64 word) + ps \<le> length f2"
      using lenf2 by simp
    from ReadAt_ok [OF zero_nn ps_pos this] have "ReadAt f2 ps 0 = Inr MP"
      using rd1 by simp
    then show ?thesis
      using alloc [of R] by (simp add: Pager_Read_def WithNum_def DefaultMetaPage_def R_def)
  qed
  have r2: "Metainfo_Deserialize m MP = (meta pgr, None)" for m
    using ps_ge
    by (simp add: MP_eq Metainfo_Deserialize_def Metainfo_Serialize_def store_def Uint64_PutUint64)
  have r3: "Pager_Read (R\<lparr>meta := meta pgr\<rparr>) F = Inr \<lparr>Num = F, Data = FP\<rparr>"
  proof -
    have "unat (F * p) + ps \<le> length f2"
      using lenf2 by (simp add: uoff)
    from ReadAt_ok [OF off_nn ps_pos this] have "ReadAt f2 ps (F * p) = Inr FP"
      using rd2 by (simp add: uoff)
    then show ?thesis
      using alloc [of "R\<lparr>meta := meta pgr\<rparr>"]
      by (simp add: Pager_Read_def WithNum_def R_def)
  qed
  have r4: "Freelist_Deserialize g FP = (flist pgr, None)" for g
    unfolding FP_eq using A3 by (rule Freelist_roundtrip_padded)
  have "Recovery R = (R\<lparr>meta := meta pgr, flist := flist pgr\<rparr>, None)"
    by (simp add: Recovery_def r1 r2 r3 [unfolded F_def] r4 Let_def)
  then have "Recovery (pgr'\<lparr>psize := psize pgr, fbytes := f2\<rparr>) =
             (pgr'\<lparr>psize := psize pgr, fbytes := f2, meta := meta pgr, flist := flist pgr\<rparr>, None)"
    by (simp add: R_def p_def)
  with flush show ?thesis
    by blast
qed

text \<open>
  C1, for a Pager whose page size holds both control records (8 bytes and
  \<open>12 + 8 |released|\<close> bytes) and is at most \<open>maxAlloc\<close> (a page buffer can be allocated),
  whose released list has fewer than \<open>2 ^ 32\<close> entries, and whose Metainfo points to a
  page number \<open>n > 0\<close> with \<open>n \<times> page size\<close> below \<open>2 ^ 63\<close> (the offset does not wrap):
  \<open>Flush\<close> succeeds, and \<open>Recovery\<close>, run by any Pager of the
  same page size over the file contents that \<open>Flush\<close> left, succeeds and leaves a
  Metainfo equal to the flushed one and a Freelist with the same \<open>max\<close> and the same
  released page numbers as the flushed one.
\<close>

theorem Flush_Recovery_restores:
  fixes pgr pgr' :: Pager
  assumes "8 \<le> sint (psize pgr)"
    and "int (12 + 8 * length (Released (flist pgr))) \<le> sint (psize pgr)"
    and "length (Released (flist pgr)) < 2 ^ 32"
    and "0 <s Freelist (meta pgr)"
    and "sint (Freelist (meta pgr)) * sint (psize pgr) < 2 ^ 63"
    and "sint (psize pgr) \<le> maxAlloc"
  shows "snd (Flush pgr) = None \<and>
         snd (Recovery (pgr'\<lparr>psize := psize pgr, fbytes := fbytes (fst (Flush pgr))\<rparr>)) = None \<and>
         meta (fst (Recovery (pgr'\<lparr>psize := psize pgr, fbytes := fbytes (fst (Flush pgr))\<rparr>))) =
           meta pgr \<and>
         Max_f (flist (fst (Recovery
           (pgr'\<lparr>psize := psize pgr, fbytes := fbytes (fst (Flush pgr))\<rparr>)))) =
           Max_f (flist pgr) \<and>
         set (Released (flist (fst (Recovery
           (pgr'\<lparr>psize := psize pgr, fbytes := fbytes (fst (Flush pgr))\<rparr>))))) =
           set (Released (flist pgr))"
proof -
  from Flush_then_Recovery [OF assms(2-6), of pgr'] obtain fl where
    f: "Flush pgr = (pgr\<lparr>fbytes := fl\<rparr>, None)" and
    r: "Recovery (pgr'\<lparr>psize := psize pgr, fbytes := fl\<rparr>) =
          (pgr'\<lparr>psize := psize pgr, fbytes := fl, meta := meta pgr, flist := flist pgr\<rparr>, None)"
    by blast
  show ?thesis
    by (simp add: f r)
qed

theorem Flush_Recovery_restores_witness:
  "8 \<le> sint (psize sample_pager) \<and>
   int (12 + 8 * length (Released (flist sample_pager))) \<le> sint (psize sample_pager) \<and>
   length (Released (flist sample_pager)) < 2 ^ 32 \<and>
   0 <s Freelist (meta sample_pager) \<and>
   sint (Freelist (meta sample_pager)) * sint (psize sample_pager) < 2 ^ 63 \<and>
   sint (psize sample_pager) \<le> maxAlloc \<and>
   snd (Flush sample_pager) = None \<and>
   snd (Recovery (fresh_pager 32 (fbytes (fst (Flush sample_pager))))) = None \<and>
   meta (fst (Recovery (fresh_pager 32 (fbytes (fst (Flush sample_pager)))))) = \<lparr>Freelist = 3\<rparr> \<and>
   Max_f (flist (fst (Recovery (fresh_pager 32 (fbytes (fst (Flush sample_pager))))))) = 12 \<and>
   set (Released (flist (fst (Recovery (fresh_pager 32 (fbytes (fst (Flush sample_pager)))))))) =
     {7, 9}"
proof -
  have h1: "8 \<le> sint (psize sample_pager)"
    and h2: "int (12 + 8 * length (Released (flist sample_pager))) \<le> sint (psize sample_pager)"
    and h3: "length (Released (flist sample_pager)) < 2 ^ 32"
    and h4: "0 <s Freelist (meta sample_pager)"
    and h5: "sint (Freelist (meta sample_pager)) * sint (psize sample_pager) < 2 ^ 63"
    and h6: "sint (psize sample_pager) \<le> maxAlloc"
    by (simp_all add: sample_pager_def word_sless_alt maxAlloc_def)
  have fp: "fresh_pager 32 fl = (fresh_pager 0 [])\<lparr>psize := psize sample_pager, fbytes := fl\<rparr>"
    for fl
    by (simp add: fresh_pager_def sample_pager_def)
  have v: "meta sample_pager = \<lparr>Freelist = 3\<rparr>" "Max_f (flist sample_pager) = 12"
    "set (Released (flist sample_pager)) = {7, 9}"
    by (simp_all add: sample_pager_def)
  show ?thesis
    using h1 h2 h3 h4 h5 h6
      Flush_Recovery_restores [OF h1 h2 h3 h4 h5 h6, of "fresh_pager 0 []"]
    by (simp only: fp v simp_thms)
qed

text \<open>
  C1 as stated fails when the offset of the Freelist page wraps. With a page size of 16
  and a Metainfo pointing to page \<open>2 ^ 60\<close>, the offset \<open>2 ^ 60 \<times> 16\<close> is 0 in 64 bits:
  \<open>Flush\<close> succeeds but writes the Freelist page over the Metainfo page, and \<open>Recovery\<close>
  reads a Metainfo pointing to page 2 and then fails reading that page.
\<close>

theorem Flush_Recovery_counterexample:
  "8 \<le> sint (psize wrapping_pager) \<and>
   int (12 + 8 * length (Released (flist wrapping_pager))) \<le> sint (psize wrapping_pager) \<and>
   0 \<le>s Freelist (meta wrapping_pager) \<and> Freelist (meta wrapping_pager) \<noteq> 0 \<and>
   snd (Flush wrapping_pager) = None \<and>
   snd (Recovery (fst (Flush wrapping_pager))) = Some ErrIO \<and>
   meta (fst (Recovery (fst (Flush wrapping_pager)))) \<noteq> meta wrapping_pager"
  by code_simp

end
